theory Spec2Isabelle
  imports Main "HOL-Library.Word"
begin

section \<open>Entries: \<open>trlc::Enum<T>\<close>\<close>

text \<open>
  \<open>struct Enum { T value{}; std::string_view name{}; }\<close>. The value type \<open>T\<close> is a
  type with a value-initialised default \<open>T{}\<close> (zero for the arithmetic and enumeration
  types the library is used with), equality, and the order \<open><\<close> that the sorted search
  compares with.
\<close>

record 'a Enum =
  enum_value :: 'a
  enum_name :: string

text \<open>\<open>constexpr operator T() const\<close>\<close>

definition Enum_to_T :: "'a Enum \<Rightarrow> 'a" where
  "Enum_to_T e = enum_value e"

text \<open>\<open>constexpr bool operator==(const Enum<T>& other)\<close>\<close>

definition Enum_eq :: "'a Enum \<Rightarrow> 'a Enum \<Rightarrow> bool" where
  "Enum_eq a b =
     (if enum_value a = enum_value b \<and> enum_name a = enum_name b then True else False)"

text \<open>\<open>default_unknown_enum<T>()\<close> returns \<open>Enum<T>{}\<close>: default value, empty name.\<close>

definition default_unknown_enum :: "'a::zero Enum" where
  "default_unknown_enum = \<lparr>enum_value = 0, enum_name = []\<rparr>"

section \<open>Results of a call\<close>

text \<open>
  \<open>size_t\<close> is a 64-bit unsigned integer; its arithmetic wraps around. A read
  \<open>entries[i]\<close> with \<open>i\<close> outside the array is undefined behaviour in the source; the
  model stops there with the error \<open>OutOfBounds i\<close>. A call that never returns has the
  result \<open>None\<close>.
\<close>

type_synonym size_t = "64 word"

datatype error = OutOfBounds nat

section \<open>Value search policies\<close>

subsection \<open>\<open>LinearSearchPolicy::search\<close>\<close>

text \<open>
  The range-for loop over \<open>entries\<close>: the first entry whose value equals the query is
  assigned to \<open>result\<close> and the loop is left; with no such entry \<open>result\<close> keeps its
  initial value.
\<close>

fun LinearSearchPolicy_loop :: "'a \<Rightarrow> 'a Enum list \<Rightarrow> 'a Enum \<Rightarrow> 'a Enum" where
  "LinearSearchPolicy_loop v [] result = result"
| "LinearSearchPolicy_loop v (entry # rest) result =
     (if enum_value entry = v then entry else LinearSearchPolicy_loop v rest result)"

definition LinearSearchPolicy_search :: "'a::zero \<Rightarrow> 'a Enum list \<Rightarrow> 'a Enum" where
  "LinearSearchPolicy_search v entries =
     LinearSearchPolicy_loop v entries default_unknown_enum"

subsection \<open>\<open>SortedSearchPolicy::search\<close>\<close>

text \<open>
  The \<open>while (left <= right)\<close> loop, on the loop variables \<open>left\<close> and \<open>right\<close> of
  type \<open>size_t\<close>. \<open>result\<close> is only assigned immediately before \<open>break\<close>, so the loop
  returns it directly.
\<close>

partial_function (option) SortedSearchPolicy_loop ::
  "'a::{zero,linorder} \<Rightarrow> 'a Enum list \<Rightarrow> size_t \<Rightarrow> size_t \<Rightarrow> (error + 'a Enum) option"
where
  "SortedSearchPolicy_loop v entries left right =
     (if left \<le> right then
        (let mid = left + (right - left) div 2 in
         if unat mid < length entries then
           (if enum_value (entries ! unat mid) = v then Some (Inr (entries ! unat mid))
            else if enum_value (entries ! unat mid) < v
              then SortedSearchPolicy_loop v entries (mid + 1) right
              else SortedSearchPolicy_loop v entries left (mid - 1))
         else Some (Inl (OutOfBounds (unat mid))))
      else Some (Inr default_unknown_enum))"

declare SortedSearchPolicy_loop.simps [code]

text \<open>\<open>left = 0\<close>, \<open>right = N - 1\<close>, with \<open>N\<close> the size of the array as a \<open>size_t\<close>.\<close>

definition SortedSearchPolicy_search ::
  "'a::{zero,linorder} \<Rightarrow> 'a Enum list \<Rightarrow> (error + 'a Enum) option" where
  "SortedSearchPolicy_search v entries =
     SortedSearchPolicy_loop v entries 0 (word_of_nat (length entries) - 1)"

section \<open>Name search policies\<close>

subsection \<open>\<open>CaseSensitiveStringSearchPolicy::search\<close>\<close>

fun CaseSensitiveStringSearchPolicy_loop ::
  "string \<Rightarrow> 'a Enum list \<Rightarrow> 'a Enum \<Rightarrow> 'a Enum" where
  "CaseSensitiveStringSearchPolicy_loop n [] result = result"
| "CaseSensitiveStringSearchPolicy_loop n (entry # rest) result =
     (if enum_name entry = n then entry
      else CaseSensitiveStringSearchPolicy_loop n rest result)"

definition CaseSensitiveStringSearchPolicy_search ::
  "string \<Rightarrow> 'a::zero Enum list \<Rightarrow> 'a Enum" where
  "CaseSensitiveStringSearchPolicy_search n entries =
     CaseSensitiveStringSearchPolicy_loop n entries default_unknown_enum"

subsection \<open>\<open>CaseInsensitiveStringSearchPolicy\<close>\<close>

text \<open>
  \<open>std::tolower\<close> is a function of the C library that follows the \<open>LC_CTYPE\<close> category
  of the current locale of the process, a global setting that any part of the program
  can change with \<open>setlocale\<close>. The model takes the current locale as an argument:
  the mapping that \<open>std::tolower\<close> applies to the code of an \<open>unsigned char\<close>.
\<close>

type_synonym lc_ctype = "int \<Rightarrow> int"

definition tolower :: "lc_ctype \<Rightarrow> int \<Rightarrow> int" where
  "tolower lc ch = lc ch"

text \<open>
  The \<open>"C"\<close> locale, the locale a program starts in: the codes of \<open>A\<close> to \<open>Z\<close>
  (65 to 90) are moved to those of \<open>a\<close> to \<open>z\<close>, every other code is returned as it
  is.
\<close>

definition C_locale :: lc_ctype where
  "C_locale ch = (if 65 \<le> ch \<and> ch \<le> 90 then ch + 32 else ch)"

text \<open>
  A locale with the ISO-8859-1 character set (\<open>en_US.ISO-8859-1\<close>, for one): the
  capital letters of the upper half, the codes 192 to 222 without the multiplication
  sign 215, have small letters 32 above them as well.
\<close>

definition Latin1_locale :: lc_ctype where
  "Latin1_locale ch =
     (if (65 \<le> ch \<and> ch \<le> 90) \<or> (192 \<le> ch \<and> ch \<le> 222 \<and> ch \<noteq> 215)
      then ch + 32 else ch)"

text \<open>
  \<open>caseInsensitiveEqual(char a, char b)\<close>; \<open>static_cast<unsigned char>\<close> is the code of
  the character, between 0 and 255.
\<close>

definition caseInsensitiveEqual :: "lc_ctype \<Rightarrow> char \<Rightarrow> char \<Rightarrow> bool" where
  "caseInsensitiveEqual lc a b = (tolower lc (of_char a) = tolower lc (of_char b))"

text \<open>
  \<open>std::equal(first1, last1, first2, pred)\<close> walks the first range and reads the second
  range at the same positions. Reading the second range past its end is outside the
  contract of \<open>std::equal\<close>; the search below only calls it on ranges of equal size, and
  the model answers \<open>False\<close> on that case.
\<close>

fun std_equal :: "'a list \<Rightarrow> 'b list \<Rightarrow> ('a \<Rightarrow> 'b \<Rightarrow> bool) \<Rightarrow> bool" where
  "std_equal [] ys p = True"
| "std_equal (x # xs) (y # ys) p = (if p x y then std_equal xs ys p else False)"
| "std_equal (x # xs) [] p = False"

fun CaseInsensitiveStringSearchPolicy_loop ::
  "lc_ctype \<Rightarrow> string \<Rightarrow> 'a Enum list \<Rightarrow> 'a Enum \<Rightarrow> 'a Enum" where
  "CaseInsensitiveStringSearchPolicy_loop lc n [] result = result"
| "CaseInsensitiveStringSearchPolicy_loop lc n (entry # rest) result =
     (if length n = length (enum_name entry)
         \<and> std_equal (enum_name entry) n (caseInsensitiveEqual lc)
      then entry
      else CaseInsensitiveStringSearchPolicy_loop lc n rest result)"

definition CaseInsensitiveStringSearchPolicy_search ::
  "lc_ctype \<Rightarrow> string \<Rightarrow> 'a::zero Enum list \<Rightarrow> 'a Enum" where
  "CaseInsensitiveStringSearchPolicy_search lc n entries =
     CaseInsensitiveStringSearchPolicy_loop lc n entries default_unknown_enum"

section \<open>\<open>UnknownPolicy\<close>\<close>

text \<open>The two overloads of \<open>UnknownPolicy::handle\<close>, for a name and for a value.\<close>

definition UnknownPolicy_handle_name :: "string \<Rightarrow> 'a::zero Enum list \<Rightarrow> 'a Enum" where
  "UnknownPolicy_handle_name n entries = default_unknown_enum"

definition UnknownPolicy_handle_value :: "'a::zero \<Rightarrow> 'a Enum list \<Rightarrow> 'a Enum" where
  "UnknownPolicy_handle_value v entries = default_unknown_enum"

section \<open>The holder: \<open>trlc::EnumHolder\<close>\<close>

text \<open>
  The three policies are template parameters of \<open>EnumHolder\<close>, fixed with its type; the
  model keeps them beside the one data member \<open>m_entries\<close>. The size \<open>N\<close> of the array
  is the length of \<open>m_entries\<close>. The datatypes list the policies the library provides.
\<close>

datatype EnumSearchPolicy = LinearSearchPolicy | SortedSearchPolicy

datatype StringSearchPolicy =
  CaseSensitiveStringSearchPolicy | CaseInsensitiveStringSearchPolicy

datatype UnknownPolicy = UnknownPolicy

record 'a EnumHolder =
  enumSearchPolicy :: EnumSearchPolicy
  stringSearchPolicy :: StringSearchPolicy
  unknownPolicy :: UnknownPolicy
  m_entries :: "'a Enum list"

text \<open>\<open>EnumSearchPolicy::template search<T, N>(value, m_entries)\<close>\<close>

fun EnumSearchPolicy_search ::
  "EnumSearchPolicy \<Rightarrow> 'a::{zero,linorder} \<Rightarrow> 'a Enum list \<Rightarrow> (error + 'a Enum) option"
where
  "EnumSearchPolicy_search LinearSearchPolicy v entries =
     Some (Inr (LinearSearchPolicy_search v entries))"
| "EnumSearchPolicy_search SortedSearchPolicy v entries =
     SortedSearchPolicy_search v entries"

text \<open>
  \<open>StringSearchPolicy::template search<T, N>(name, m_entries)\<close>, in the current locale
  \<open>lc\<close> of the process.
\<close>

fun StringSearchPolicy_search ::
  "lc_ctype \<Rightarrow> StringSearchPolicy \<Rightarrow> string \<Rightarrow> 'a::zero Enum list \<Rightarrow> 'a Enum" where
  "StringSearchPolicy_search lc CaseSensitiveStringSearchPolicy n entries =
     CaseSensitiveStringSearchPolicy_search n entries"
| "StringSearchPolicy_search lc CaseInsensitiveStringSearchPolicy n entries =
     CaseInsensitiveStringSearchPolicy_search lc n entries"

text \<open>\<open>UnknownPolicy::template handle<T>(query, m_entries)\<close>\<close>

fun handle_value :: "UnknownPolicy \<Rightarrow> 'a::zero \<Rightarrow> 'a Enum list \<Rightarrow> 'a Enum" where
  "handle_value UnknownPolicy v entries = UnknownPolicy_handle_value v entries"

fun handle_name :: "UnknownPolicy \<Rightarrow> string \<Rightarrow> 'a::zero Enum list \<Rightarrow> 'a Enum" where
  "handle_name UnknownPolicy n entries = UnknownPolicy_handle_name n entries"

text \<open>
  The member functions, in state-passing form: a call that returns gives its result
  together with the holder as the call leaves it. \<open>fromString\<close> is called in the current
  locale \<open>lc\<close> of the process.
\<close>

definition fromValue ::
  "'a::{zero,linorder} EnumHolder \<Rightarrow> 'a \<Rightarrow> (error + 'a Enum \<times> 'a EnumHolder) option" where
  "fromValue h v =
     (case EnumSearchPolicy_search (enumSearchPolicy h) v (m_entries h) of
        None \<Rightarrow> None
      | Some (Inl err) \<Rightarrow> Some (Inl err)
      | Some (Inr result) \<Rightarrow>
          Some (Inr (if Enum_eq result default_unknown_enum
                     then handle_value (unknownPolicy h) v (m_entries h)
                     else result, h)))"

definition fromString ::
  "lc_ctype \<Rightarrow> 'a::zero EnumHolder \<Rightarrow> string \<Rightarrow> 'a Enum \<times> 'a EnumHolder" where
  "fromString lc h n =
     (let result = StringSearchPolicy_search lc (stringSearchPolicy h) n (m_entries h)
      in (if Enum_eq result default_unknown_enum
          then handle_name (unknownPolicy h) n (m_entries h)
          else result, h))"

definition allValues :: "'a EnumHolder \<Rightarrow> 'a Enum list \<times> 'a EnumHolder" where
  "allValues h = (m_entries h, h)"

section \<open>The case fold of the specification\<close>

text \<open>
  The specification compares names under a locale-independent ASCII case fold: the
  twenty-six capital letters are folded to their small letters, every other character is
  kept. Two names match when they have equal length and every pair of characters at the
  same position is equal under the fold.
\<close>

definition ascii_case_fold :: "char \<Rightarrow> char" where
  "ascii_case_fold c =
     (case map_of (zip ''ABCDEFGHIJKLMNOPQRSTUVWXYZ'' ''abcdefghijklmnopqrstuvwxyz'') c of
        Some l \<Rightarrow> l
      | None \<Rightarrow> c)"

definition spec_names_match :: "string \<Rightarrow> string \<Rightarrow> bool" where
  "spec_names_match a b =
     (length a = length b \<and> list_all2 (\<lambda>x y. ascii_case_fold x = ascii_case_fold y) a b)"

section \<open>Tables used as examples\<close>

text \<open>
  \<open>colorEntries\<close> of the tests, with the values of \<open>enum class Color\<close> as \<open>uint64_t\<close>
  (the value type of \<open>DefaultEnum\<close>), and the two holders the tests build over it.
\<close>

definition colorEntries :: "64 word Enum list" where
  "colorEntries =
     [\<lparr>enum_value = 1, enum_name = ''Red''\<rparr>,
      \<lparr>enum_value = 2, enum_name = ''Green''\<rparr>,
      \<lparr>enum_value = 3, enum_name = ''Blue''\<rparr>,
      \<lparr>enum_value = 0, enum_name = ''Unknown''\<rparr>]"

definition ColorEnumHolder :: "64 word EnumHolder" where
  "ColorEnumHolder =
     \<lparr>enumSearchPolicy = LinearSearchPolicy,
      stringSearchPolicy = CaseSensitiveStringSearchPolicy,
      unknownPolicy = UnknownPolicy,
      m_entries = colorEntries\<rparr>"

definition InsensitiveHolder :: "64 word EnumHolder" where
  "InsensitiveHolder =
     \<lparr>enumSearchPolicy = LinearSearchPolicy,
      stringSearchPolicy = CaseInsensitiveStringSearchPolicy,
      unknownPolicy = UnknownPolicy,
      m_entries = colorEntries\<rparr>"

text \<open>
  The first three colours, sorted ascending by value, under a holder bound to the sorted
  search.
\<close>

definition sortedColorEntries :: "64 word Enum list" where
  "sortedColorEntries =
     [\<lparr>enum_value = 1, enum_name = ''Red''\<rparr>,
      \<lparr>enum_value = 2, enum_name = ''Green''\<rparr>,
      \<lparr>enum_value = 3, enum_name = ''Blue''\<rparr>]"

definition SortedColorHolder :: "64 word EnumHolder" where
  "SortedColorHolder =
     \<lparr>enumSearchPolicy = SortedSearchPolicy,
      stringSearchPolicy = CaseInsensitiveStringSearchPolicy,
      unknownPolicy = UnknownPolicy,
      m_entries = sortedColorEntries\<rparr>"

text \<open>A table with two entries of the same value, under the linear search.\<close>

definition duplicateValueHolder :: "64 word EnumHolder" where
  "duplicateValueHolder =
     \<lparr>enumSearchPolicy = LinearSearchPolicy,
      stringSearchPolicy = CaseSensitiveStringSearchPolicy,
      unknownPolicy = UnknownPolicy,
      m_entries =
        [\<lparr>enum_value = 1, enum_name = ''Red''\<rparr>,
         \<lparr>enum_value = 2, enum_name = ''Green''\<rparr>,
         \<lparr>enum_value = 2, enum_name = ''Lime''\<rparr>]\<rparr>"


text \<open>A table of one entry under the sorted search.\<close>

definition singleEntryHolder :: "64 word EnumHolder" where
  "singleEntryHolder =
     \<lparr>enumSearchPolicy = SortedSearchPolicy,
      stringSearchPolicy = CaseSensitiveStringSearchPolicy,
      unknownPolicy = UnknownPolicy,
      m_entries = [\<lparr>enum_value = 5, enum_name = ''Five''\<rparr>]\<rparr>"

text \<open>
  A table with one entry, whose name is the single character of code \<open>0xE9\<close> (in
  ISO-8859-1 the small letter \<open>e\<close> with an acute accent; its capital letter has the
  code \<open>0xC9\<close>), under the case-insensitive name search.
\<close>

definition accentHolder :: "64 word EnumHolder" where
  "accentHolder =
     \<lparr>enumSearchPolicy = LinearSearchPolicy,
      stringSearchPolicy = CaseInsensitiveStringSearchPolicy,
      unknownPolicy = UnknownPolicy,
      m_entries = [\<lparr>enum_value = 1, enum_name = [CHR 0xE9]\<rparr>]\<rparr>"


section \<open>Arithmetic on \<open>size_t\<close>\<close>

lemma unat_mid:
  fixes left right :: size_t
  assumes "left \<le> right"
  shows "unat (left + (right - left) div 2) = unat left + (unat right - unat left) div 2"
proof -
  have le: "unat left \<le> unat right" using assms by (simp add: word_le_nat_alt)
  have s: "unat (right - left) = unat right - unat left"
    using assms by (simp add: unat_sub)
  have d: "unat ((right - left) div 2) = (unat right - unat left) div 2"
    by (simp add: unat_div s)
  have b: "unat right < 2 ^ 64" using unsigned_less [of right] by simp
  have "unat left + unat ((right - left) div 2) < 2 ^ LENGTH(64)"
    using le b d by simp
  then have "unat (left + (right - left) div 2) = unat left + unat ((right - left) div 2)"
    by (rule unat_add_lem [THEN iffD1])
  with d show ?thesis by simp
qed

lemma unat_succ_below:
  fixes m :: size_t
  assumes "unat m < n" and "n < 2 ^ 64"
  shows "unat (m + 1) = unat m + 1"
proof -
  from assms have "unat m + unat (1 :: size_t) < 2 ^ LENGTH(64)" by simp
  then have "unat (m + 1) = unat m + unat (1 :: size_t)"
    by (rule unat_add_lem [THEN iffD1])
  then show ?thesis by simp
qed

lemma unat_pred_pos:
  fixes m :: size_t
  assumes "0 < unat m"
  shows "unat (m - 1) = unat m - 1"
proof -
  from assms have "m \<noteq> 0" by (auto simp: unat_eq_0)
  then show ?thesis by (rule unat_minus_one)
qed

section \<open>The loop of the sorted search\<close>

text \<open>
  Once \<open>right\<close> has wrapped around to the largest \<open>size_t\<close>, the next \<open>mid\<close> is
  \<open>2^63 - 1\<close>, outside every array of at most that many entries.
\<close>

lemma SortedSearchPolicy_loop_wrapped:
  fixes v :: "'a::{zero,linorder}"
  assumes "length es \<le> 9223372036854775807"
  shows "SortedSearchPolicy_loop v es 0 (- 1) = Some (Inl (OutOfBounds 9223372036854775807))"
  using assms by (subst SortedSearchPolicy_loop.simps) (simp add: Let_def)



text \<open>
  With no matching entry and the first value below the query, \<open>mid - 1\<close> never wraps
  and the loop ends with the default entry.
\<close>

lemma SortedSearchPolicy_loop_not_found:
  fixes v :: "'a::{zero,linorder}"
  assumes "\<forall>e \<in> set es. enum_value e \<noteq> v"
    and "enum_value (es ! 0) < v"
    and "length es < 2 ^ 64"
    and "unat r < length es" and "unat l \<le> unat r + 1"
  shows "SortedSearchPolicy_loop v es l r = Some (Inr default_unknown_enum)"
  using assms(4,5)
proof (induction "unat r + 1 - unat l" arbitrary: l r rule: less_induct)
  case less
  show ?case
  proof (cases "l \<le> r")
    case False
    then show ?thesis by (subst SortedSearchPolicy_loop.simps) simp
  next
    case le: True
    define mid where "mid = l + (r - l) div 2"
    have um: "unat mid = unat l + (unat r - unat l) div 2"
      unfolding mid_def using le by (rule unat_mid)
    have lr: "unat l \<le> unat r" using le by (simp add: word_le_nat_alt)
    have lm: "unat l \<le> unat mid" and mr: "unat mid \<le> unat r"
      using um lr by simp_all
    have inb: "unat mid < length es" using mr less.prems by simp
    have ne: "enum_value (es ! unat mid) \<noteq> v" using assms(1) inb by simp
    have unf: "SortedSearchPolicy_loop v es l r =
       (if enum_value (es ! unat mid) < v
          then SortedSearchPolicy_loop v es (mid + 1) r
          else SortedSearchPolicy_loop v es l (mid - 1))"
      using le inb ne by (subst SortedSearchPolicy_loop.simps) (simp add: Let_def mid_def)
    show ?thesis
    proof (cases "enum_value (es ! unat mid) < v")
      case True
      have us: "unat (mid + 1) = unat mid + 1"
        using inb assms(3) by (rule unat_succ_below)
      have "SortedSearchPolicy_loop v es (mid + 1) r = Some (Inr default_unknown_enum)"
        using us lm mr less.prems by (intro less.hyps) simp_all
      then show ?thesis using unf True by simp
    next
      case False
      have pos: "0 < unat mid"
      proof (rule ccontr)
        assume "\<not> 0 < unat mid"
        then have "unat mid = 0" by simp
        then show False using False assms(2) ne by simp
      qed
      then have up: "unat (mid - 1) = unat mid - 1" by (rule unat_pred_pos)
      have "SortedSearchPolicy_loop v es l (mid - 1) = Some (Inr default_unknown_enum)"
        using up pos lm mr inb less.prems by (intro less.hyps) simp_all
      then show ?thesis using unf False by simp
    qed
  qed
qed

text \<open>
  With the query below the first value of a sorted array, every step takes the branch
  \<open>right = mid - 1\<close>, until \<open>mid\<close> is \<open>0\<close> and \<open>right\<close> wraps around.
\<close>

lemma SortedSearchPolicy_loop_below_first:
  fixes v :: "'a::{zero,linorder}"
  assumes "sorted (map enum_value es)"
    and "v < enum_value (es ! 0)"
    and "length es \<le> 9223372036854775807"
    and "unat r < length es"
  shows "SortedSearchPolicy_loop v es 0 r = Some (Inl (OutOfBounds 9223372036854775807))"
  using assms(4)
proof (induction "unat r" arbitrary: r rule: less_induct)
  case less
  define mid where "mid = 0 + (r - 0) div 2"
  have um: "unat mid = unat r div 2"
    unfolding mid_def using unat_mid [of 0 r] by simp
  have inb: "unat mid < length es" using um less.prems by simp
  have "map enum_value es ! 0 \<le> map enum_value es ! unat mid"
    using assms(1) inb by (simp add: sorted_nth_mono del: nth_map)
  moreover have "0 < length es" using inb by (cases es) simp_all
  ultimately have "enum_value (es ! 0) \<le> enum_value (es ! unat mid)"
    using inb by simp
  then have gt: "v < enum_value (es ! unat mid)"
    using assms(2) by simp
  then have ne: "enum_value (es ! unat mid) \<noteq> v" and nlt: "\<not> enum_value (es ! unat mid) < v"
    by auto
  have unf: "SortedSearchPolicy_loop v es 0 r = SortedSearchPolicy_loop v es 0 (mid - 1)"
    using inb ne nlt by (subst SortedSearchPolicy_loop.simps) (simp add: Let_def mid_def)
  show ?case
  proof (cases "unat mid = 0")
    case True
    then have "mid = 0" by (simp add: unat_eq_0)
    then show ?thesis using unf SortedSearchPolicy_loop_wrapped [OF assms(3)] by simp
  next
    case False
    then have up: "unat (mid - 1) = unat mid - 1" by (intro unat_pred_pos) simp
    have "SortedSearchPolicy_loop v es 0 (mid - 1) = Some (Inl (OutOfBounds 9223372036854775807))"
      using up False um inb by (intro less.hyps) simp_all
    then show ?thesis using unf by simp
  qed
qed

text \<open>
  On an array of at most \<open>2^63 - 1\<close> entries the loop always ends: with an entry, or
  with a read outside the array.
\<close>

lemma SortedSearchPolicy_loop_returns:
  fixes v :: "'a::{zero,linorder}"
  assumes "length es \<le> 9223372036854775807"
    and "unat r < length es" and "unat l \<le> unat r + 1"
  shows "\<exists>out. SortedSearchPolicy_loop v es l r = Some out"
  using assms(2,3)
proof (induction "unat r + 1 - unat l" arbitrary: l r rule: less_induct)
  case less
  show ?case
  proof (cases "l \<le> r")
    case False
    then show ?thesis by (subst SortedSearchPolicy_loop.simps) simp
  next
    case le: True
    define mid where "mid = l + (r - l) div 2"
    have um: "unat mid = unat l + (unat r - unat l) div 2"
      unfolding mid_def using le by (rule unat_mid)
    have lr: "unat l \<le> unat r" using le by (simp add: word_le_nat_alt)
    have lm: "unat l \<le> unat mid" and mr: "unat mid \<le> unat r"
      using um lr by simp_all
    have inb: "unat mid < length es" using mr less.prems by simp
    have unf: "SortedSearchPolicy_loop v es l r =
       (if enum_value (es ! unat mid) = v then Some (Inr (es ! unat mid))
        else if enum_value (es ! unat mid) < v
          then SortedSearchPolicy_loop v es (mid + 1) r
          else SortedSearchPolicy_loop v es l (mid - 1))"
      using le inb by (subst SortedSearchPolicy_loop.simps) (simp add: Let_def mid_def)
    have up: "\<exists>out. SortedSearchPolicy_loop v es (mid + 1) r = Some out"
    proof -
      have "length es < 2 ^ 64" using assms(1) by simp
      with inb have us: "unat (mid + 1) = unat mid + 1" by (rule unat_succ_below)
      show ?thesis using us lm mr less.prems by (intro less.hyps) simp_all
    qed
    have down: "\<exists>out. SortedSearchPolicy_loop v es l (mid - 1) = Some out"
    proof (cases "unat mid = 0")
      case True
      then have "mid = 0" and "l = 0" using lm by (simp_all add: unat_eq_0)
      then show ?thesis using SortedSearchPolicy_loop_wrapped [OF assms(1), of v] by simp
    next
      case False
      then have pos: "0 < unat mid" by simp
      then have "unat (mid - 1) = unat mid - 1" by (rule unat_pred_pos)
      then show ?thesis using pos lm mr inb less.prems by (intro less.hyps) simp_all
    qed
    show ?thesis using unf up down by auto
  qed
qed

section \<open>The sorted search on a whole array\<close>

lemma unat_N_minus_1:
  assumes "0 < n" and "n < 2 ^ 64"
  shows "unat (word_of_nat n - 1 :: size_t) = n - 1"
proof -
  have u: "unat (word_of_nat n :: size_t) = n"
    using assms(2) by (simp add: unat_of_nat)
  then have "0 < unat (word_of_nat n :: size_t)" using assms(1) by simp
  then have "unat (word_of_nat n - 1 :: size_t) = unat (word_of_nat n :: size_t) - 1"
    by (rule unat_pred_pos)
  with u show ?thesis by simp
qed


lemma SortedSearchPolicy_search_not_found:
  fixes es :: "'a::{zero,linorder} Enum list"
  assumes "v \<notin> enum_value ` set es" and "es \<noteq> []" and "enum_value (es ! 0) < v"
    and "length es < 2 ^ 64"
  shows "SortedSearchPolicy_search v es = Some (Inr default_unknown_enum)"
proof -
  have pos: "0 < length es" using assms(2) by simp
  have ur: "unat (word_of_nat (length es) - 1 :: size_t) = length es - 1"
    using pos assms(4) by (rule unat_N_minus_1)
  have "\<forall>e \<in> set es. enum_value e \<noteq> v" using assms(1) by auto
  then have "SortedSearchPolicy_loop v es 0 (word_of_nat (length es) - 1)
      = Some (Inr default_unknown_enum)"
    using assms(3,4)
  proof (rule SortedSearchPolicy_loop_not_found)
    show "unat (word_of_nat (length es) - 1 :: size_t) < length es" using ur pos by linarith
    show "unat (0 :: size_t) \<le> unat (word_of_nat (length es) - 1 :: size_t) + 1" by simp
  qed
  then show ?thesis by (simp add: SortedSearchPolicy_search_def)
qed

lemma SortedSearchPolicy_search_below_first:
  fixes es :: "'a::{zero,linorder} Enum list"
  assumes "sorted (map enum_value es)" and "es \<noteq> []" and "v < enum_value (es ! 0)"
    and "length es \<le> 9223372036854775807"
  shows "SortedSearchPolicy_search v es = Some (Inl (OutOfBounds 9223372036854775807))"
proof -
  have pos: "0 < length es" using assms(2) by simp
  have "length es < 2 ^ 64" using assms(4) by simp
  with pos have ur: "unat (word_of_nat (length es) - 1 :: size_t) = length es - 1"
    by (rule unat_N_minus_1)
  have "SortedSearchPolicy_loop v es 0 (word_of_nat (length es) - 1)
      = Some (Inl (OutOfBounds 9223372036854775807))"
    using assms(1,3,4)
  proof (rule SortedSearchPolicy_loop_below_first)
    show "unat (word_of_nat (length es) - 1 :: size_t) < length es" using ur pos by linarith
  qed
  then show ?thesis by (simp add: SortedSearchPolicy_search_def)
qed

lemma SortedSearchPolicy_search_empty:
  "SortedSearchPolicy_search v [] = Some (Inl (OutOfBounds 9223372036854775807))"
  using SortedSearchPolicy_loop_wrapped [of "[]" v] by (simp add: SortedSearchPolicy_search_def)

lemma SortedSearchPolicy_search_returns:
  fixes v :: "'a::{zero,linorder}"
  assumes "length es \<le> 9223372036854775807"
  shows "\<exists>out. SortedSearchPolicy_search v es = Some out"
proof (cases "es = []")
  case True
  then show ?thesis by (simp add: SortedSearchPolicy_search_empty)
next
  case False
  then have pos: "0 < length es" by simp
  have "length es < 2 ^ 64" using assms by simp
  with pos have ur: "unat (word_of_nat (length es) - 1 :: size_t) = length es - 1"
    by (rule unat_N_minus_1)
  have "\<exists>out. SortedSearchPolicy_loop v es 0 (word_of_nat (length es) - 1) = Some out"
    using assms
  proof (rule SortedSearchPolicy_loop_returns)
    show "unat (word_of_nat (length es) - 1 :: size_t) < length es" using ur pos by linarith
    show "unat (0 :: size_t) \<le> unat (word_of_nat (length es) - 1 :: size_t) + 1" by simp
  qed
  then show ?thesis by (simp add: SortedSearchPolicy_search_def)
qed

section \<open>The linear searches\<close>

lemma Enum_eq_iff: "Enum_eq a b \<longleftrightarrow> a = (b :: 'a Enum)"
  by (cases a, cases b) (simp add: Enum_eq_def)

lemma LinearSearchPolicy_loop_find:
  "LinearSearchPolicy_loop v es r =
     (case find (\<lambda>e. enum_value e = v) es of Some e \<Rightarrow> e | None \<Rightarrow> r)"
  by (induction es) simp_all

lemma CaseSensitiveStringSearchPolicy_loop_find:
  "CaseSensitiveStringSearchPolicy_loop n es r =
     (case find (\<lambda>e. enum_name e = n) es of Some e \<Rightarrow> e | None \<Rightarrow> r)"
  by (induction es) simp_all

lemma std_equal_list_all2:
  "length xs = length ys \<Longrightarrow> std_equal xs ys p = list_all2 p xs ys"
  by (induction xs ys p rule: std_equal.induct) simp_all

section \<open>\<open>std::tolower\<close> and the case fold\<close>

lemma upper_code_list:
  "map of_char ''ABCDEFGHIJKLMNOPQRSTUVWXYZ'' = [65..(90::int)]"
  by (simp add: upto.simps)

lemma upper_codes:
  assumes "65 \<le> (of_char c :: int)" and "(of_char c :: int) \<le> 90"
  shows "c \<in> set ''ABCDEFGHIJKLMNOPQRSTUVWXYZ''"
proof -
  have "(of_char c :: int) \<in> set [65..90]" using assms by (simp only: set_upto atLeastAtMost_iff)
  then have "(of_char c :: int) \<in> set (map of_char ''ABCDEFGHIJKLMNOPQRSTUVWXYZ'')"
    by (simp only: upper_code_list)
  then obtain d where d: "d \<in> set ''ABCDEFGHIJKLMNOPQRSTUVWXYZ''" "(of_char c :: int) = of_char d"
    by (auto simp only: set_map image_iff)
  from d(2) have "c = d" by simp
  with d(1) show ?thesis by simp
qed

lemma tolower_upper:
  assumes "c \<in> set ''ABCDEFGHIJKLMNOPQRSTUVWXYZ''"
  shows "tolower C_locale (of_char c) = of_char (ascii_case_fold c)"
  using assms by (auto simp: tolower_def C_locale_def ascii_case_fold_def)

lemma tolower_other:
  assumes "c \<notin> set ''ABCDEFGHIJKLMNOPQRSTUVWXYZ''"
  shows "tolower C_locale (of_char c) = of_char (ascii_case_fold c)"
proof -
  have "\<not> (65 \<le> (of_char c :: int) \<and> (of_char c :: int) \<le> 90)"
    using assms upper_codes by blast
  then have "tolower C_locale (of_char c) = of_char c" by (simp add: tolower_def C_locale_def)
  moreover have "map_of (zip ''ABCDEFGHIJKLMNOPQRSTUVWXYZ'' ''abcdefghijklmnopqrstuvwxyz'') c = None"
    using assms by (subst map_of_zip_is_None) simp_all
  then have "ascii_case_fold c = c" by (simp add: ascii_case_fold_def)
  ultimately show ?thesis by simp
qed

lemma tolower_ascii_case_fold: "tolower C_locale (of_char c) = of_char (ascii_case_fold c)"
  using tolower_upper tolower_other by blast

lemma caseInsensitiveEqual_iff:
  "caseInsensitiveEqual C_locale a b \<longleftrightarrow> ascii_case_fold a = ascii_case_fold b"
  by (simp add: caseInsensitiveEqual_def tolower_ascii_case_fold)

section \<open>The member functions in terms of the searches\<close>

text \<open>
  The one unknown policy of the library returns the default entry, so replacing a
  search result that equals the default entry by the policy's answer gives the search
  result again.
\<close>

lemma handle_value_default: "handle_value p v es = default_unknown_enum"
  by (cases p) (simp add: UnknownPolicy_handle_value_def)

lemma handle_name_default: "handle_name p n es = default_unknown_enum"
  by (cases p) (simp add: UnknownPolicy_handle_name_def)

lemma fromValue_of_search:
  assumes "EnumSearchPolicy_search (enumSearchPolicy h) v (m_entries h) = Some (Inr r)"
  shows "fromValue h v = Some (Inr (r, h))"
  using assms by (simp add: fromValue_def handle_value_default Enum_eq_iff)

lemma fromValue_of_error:
  assumes "EnumSearchPolicy_search (enumSearchPolicy h) v (m_entries h) = Some (Inl err)"
  shows "fromValue h v = Some (Inl err)"
  using assms by (simp add: fromValue_def)

lemma fromString_of_search:
  "fromString lc h n = (StringSearchPolicy_search lc (stringSearchPolicy h) n (m_entries h), h)"
  by (simp add: fromString_def Let_def handle_name_default Enum_eq_iff)

lemma find_first_index:
  assumes "i < length xs" and "P (xs ! i)" and "\<forall>k<i. \<not> P (xs ! k)"
  shows "find P xs = Some (xs ! i)"
  using assms by (auto simp: find_Some_iff)

lemma LinearSearchPolicy_search_first:
  assumes "i < length es" and "enum_value (es ! i) = v"
    and "\<forall>k<i. enum_value (es ! k) \<noteq> v"
  shows "LinearSearchPolicy_search v es = es ! i"
proof -
  have "find (\<lambda>e. enum_value e = v) es = Some (es ! i)"
    using assms by (intro find_first_index) simp_all
  then show ?thesis
    by (simp add: LinearSearchPolicy_search_def LinearSearchPolicy_loop_find)
qed

lemma LinearSearchPolicy_search_unknown:
  assumes "v \<notin> enum_value ` set es"
  shows "LinearSearchPolicy_search v es = default_unknown_enum"
proof -
  have "find (\<lambda>e. enum_value e = v) es = None"
    using assms by (auto simp: find_None_iff)
  then show ?thesis
    by (simp add: LinearSearchPolicy_search_def LinearSearchPolicy_loop_find)
qed

text \<open>
  Every call of \<open>fromValue\<close> on an array of at most \<open>2^63 - 1\<close> entries returns: an
  entry, with the holder as it was, or the error of a read outside the array. Under the
  linear search it returns the entry the search finds.
\<close>

lemma fromValue_returns:
  assumes "length (m_entries h) \<le> 9223372036854775807"
  shows "(\<exists>r. fromValue h v = Some (Inr (r, h))) \<or> (\<exists>i. fromValue h v = Some (Inl (OutOfBounds i)))"
proof -
  have "\<exists>out. EnumSearchPolicy_search (enumSearchPolicy h) v (m_entries h) = Some out"
    using assms by (cases "enumSearchPolicy h") (simp_all add: SortedSearchPolicy_search_returns)
  then obtain out where out: "EnumSearchPolicy_search (enumSearchPolicy h) v (m_entries h) = Some out"
    by blast
  show ?thesis
  proof (cases out)
    case (Inl err)
    then have "fromValue h v = Some (Inl err)" using out by (intro fromValue_of_error) simp
    then show ?thesis by (cases err) auto
  next
    case (Inr r)
    then have "fromValue h v = Some (Inr (r, h))" using out by (intro fromValue_of_search) simp
    then show ?thesis by blast
  qed
qed


section \<open>The case-insensitive search and the case fold\<close>

lemma list_all2_fold_eq:
  "list_all2 (\<lambda>x y. f x = f y) xs ys \<longleftrightarrow> map f xs = map f ys"
  by (induction xs arbitrary: ys) (auto simp: list_all2_Cons1)

lemma spec_names_match_map:
  "spec_names_match a b \<longleftrightarrow> map ascii_case_fold a = map ascii_case_fold b"
proof
  assume "spec_names_match a b"
  then show "map ascii_case_fold a = map ascii_case_fold b"
    by (simp add: spec_names_match_def list_all2_fold_eq)
next
  assume m: "map ascii_case_fold a = map ascii_case_fold b"
  then have "length a = length b" by (rule map_eq_imp_length_eq)
  with m show "spec_names_match a b"
    by (simp add: spec_names_match_def list_all2_fold_eq)
qed

lemma caseInsensitive_condition:
  "(length n = length m \<and> std_equal m n (caseInsensitiveEqual C_locale))
     \<longleftrightarrow> spec_names_match n m"
proof (cases "length n = length m")
  case True
  then have "std_equal m n (caseInsensitiveEqual C_locale)
      = list_all2 (caseInsensitiveEqual C_locale) m n"
    by (intro std_equal_list_all2) simp
  also have "\<dots> = list_all2 (\<lambda>x y. ascii_case_fold x = ascii_case_fold y) m n"
    by (simp add: caseInsensitiveEqual_iff [abs_def])
  also have "\<dots> \<longleftrightarrow> map ascii_case_fold m = map ascii_case_fold n"
    by (rule list_all2_fold_eq)
  finally show ?thesis using True by (auto simp: spec_names_match_map)
next
  case False
  then show ?thesis by (simp add: spec_names_match_def)
qed

lemma CaseInsensitiveStringSearchPolicy_loop_find:
  "CaseInsensitiveStringSearchPolicy_loop C_locale n es r =
     (case find (\<lambda>e. spec_names_match n (enum_name e)) es of Some e \<Rightarrow> e | None \<Rightarrow> r)"
  by (induction es) (simp_all add: caseInsensitive_condition)

lemma CaseInsensitiveStringSearchPolicy_search_cong:
  assumes "map ascii_case_fold n = map ascii_case_fold n'"
  shows "CaseInsensitiveStringSearchPolicy_search C_locale n es
       = CaseInsensitiveStringSearchPolicy_search C_locale n' es"
  using assms
  by (simp add: CaseInsensitiveStringSearchPolicy_search_def
      CaseInsensitiveStringSearchPolicy_loop_find spec_names_match_map)

lemma fold_red:
  "map ascii_case_fold ''red'' = map ascii_case_fold ''Red''"
  "map ascii_case_fold ''RED'' = map ascii_case_fold ''Red''"
  "map ascii_case_fold ''ReD'' = map ascii_case_fold ''Red''"
  by (simp_all add: ascii_case_fold_def)

section \<open>Looking up a stored entry\<close>






section \<open>Looking up a value or a name that is not stored\<close>

lemma fromValue_linear_unknown:
  assumes "enumSearchPolicy h = LinearSearchPolicy" and "v \<notin> enum_value ` set (m_entries h)"
  shows "fromValue h v = Some (Inr (default_unknown_enum, h))"
proof -
  have "EnumSearchPolicy_search (enumSearchPolicy h) v (m_entries h)
      = Some (Inr default_unknown_enum)"
    using assms by (simp add: LinearSearchPolicy_search_unknown)
  then show ?thesis by (rule fromValue_of_search)
qed

lemma fromValue_sorted_unknown:
  assumes "enumSearchPolicy h = SortedSearchPolicy" and "v \<notin> enum_value ` set (m_entries h)"
    and "m_entries h \<noteq> []" and "enum_value (m_entries h ! 0) < v"
    and "length (m_entries h) < 2 ^ 64"
  shows "fromValue h v = Some (Inr (default_unknown_enum, h))"
proof -
  have "EnumSearchPolicy_search (enumSearchPolicy h) v (m_entries h)
      = Some (Inr default_unknown_enum)"
    using assms by (simp add: SortedSearchPolicy_search_not_found)
  then show ?thesis by (rule fromValue_of_search)
qed

lemma fromValue_sorted_below_first:
  assumes "enumSearchPolicy h = SortedSearchPolicy" and "sorted (map enum_value (m_entries h))"
    and "m_entries h \<noteq> []" and "v < enum_value (m_entries h ! 0)"
    and "length (m_entries h) \<le> 9223372036854775807"
  shows "fromValue h v = Some (Inl (OutOfBounds 9223372036854775807))"
proof -
  have "EnumSearchPolicy_search (enumSearchPolicy h) v (m_entries h)
      = Some (Inl (OutOfBounds 9223372036854775807))"
    using assms by (simp add: SortedSearchPolicy_search_below_first)
  then show ?thesis by (rule fromValue_of_error)
qed

lemma fromString_case_sensitive_unknown:
  assumes "stringSearchPolicy h = CaseSensitiveStringSearchPolicy"
    and "n \<notin> enum_name ` set (m_entries h)"
  shows "fromString lc h n = (default_unknown_enum, h)"
proof -
  have "find (\<lambda>e. enum_name e = n) (m_entries h) = None"
    using assms(2) by (auto simp: find_None_iff)
  then show ?thesis
    using assms(1)
    by (simp add: fromString_of_search CaseSensitiveStringSearchPolicy_search_def
        CaseSensitiveStringSearchPolicy_loop_find)
qed

lemma fromString_case_insensitive_unknown:
  assumes "stringSearchPolicy h = CaseInsensitiveStringSearchPolicy"
    and "\<forall>e \<in> set (m_entries h). \<not> spec_names_match n (enum_name e)"
  shows "fromString C_locale h n = (default_unknown_enum, h)"
proof -
  have "find (\<lambda>e. spec_names_match n (enum_name e)) (m_entries h) = None"
    using assms(2) by (auto simp: find_None_iff)
  then show ?thesis
    using assms(1)
    by (simp add: fromString_of_search CaseInsensitiveStringSearchPolicy_search_def
        CaseInsensitiveStringSearchPolicy_loop_find)
qed

section \<open>The locale and the name searches\<close>

text \<open>
  The case-insensitive search reads the locale only through \<open>std::tolower\<close> on the
  codes of characters; the case-sensitive search does not read it.
\<close>

lemma caseInsensitiveEqual_locale_cong:
  assumes "\<forall>c::char. tolower lc (of_char c) = tolower lc' (of_char c)"
  shows "caseInsensitiveEqual lc = caseInsensitiveEqual lc'"
  using assms by (intro ext) (simp add: caseInsensitiveEqual_def)

lemma CaseInsensitiveStringSearchPolicy_loop_locale_cong:
  assumes "\<forall>c::char. tolower lc (of_char c) = tolower lc' (of_char c)"
  shows "CaseInsensitiveStringSearchPolicy_loop lc n es r
       = CaseInsensitiveStringSearchPolicy_loop lc' n es r"
  by (induction es) (simp_all add: caseInsensitiveEqual_locale_cong [OF assms])

lemma StringSearchPolicy_search_locale_cong:
  assumes "\<forall>c::char. tolower lc (of_char c) = tolower lc' (of_char c)"
  shows "StringSearchPolicy_search lc p n es = StringSearchPolicy_search lc' p n es"
  by (cases p)
    (simp_all add: CaseInsensitiveStringSearchPolicy_search_def
      CaseInsensitiveStringSearchPolicy_loop_locale_cong [OF assms])

lemma fromString_locale_cong:
  assumes "\<forall>c::char. tolower lc (of_char c) = tolower lc' (of_char c)"
  shows "fromString lc h n = fromString lc' h n"
  by (simp add: fromString_of_search StringSearchPolicy_search_locale_cong [OF assms])


section \<open>The sorted search from the first value on\<close>




section \<open>Properties of the specification\<close>

text \<open>
  C1. \<open>SortedSearchPolicy::search\<close> is to return the default entry for a query that
  matches no entry of an array sorted ascending by value. On the sorted array
  \<open>[(1,"Red"), (2,"Green"), (3,"Blue")]\<close> and the query \<open>0\<close>, which matches no entry, it
  does not: \<open>mid\<close> reaches \<open>0\<close>, \<open>right = mid - 1\<close> wraps around to the largest
  \<open>size_t\<close>, the loop goes on and reads \<open>entries[2^63 - 1]\<close>, outside the array.
  (\<open>SortedSearchPolicy_search_below_first\<close> shows the same for every sorted array and
  every query below its first value; \<open>SortedSearchPolicy_search_found\<close> and
  \<open>SortedSearchPolicy_search_not_found\<close> cover the queries from the first value on.)
\<close>

theorem C1_sorted_search_below_first:
  "sorted (map enum_value sortedColorEntries)
   \<and> length sortedColorEntries = 3
   \<and> 0 \<notin> enum_value ` set sortedColorEntries
   \<and> SortedSearchPolicy_search 0 sortedColorEntries
       = Some (Inl (OutOfBounds 9223372036854775807))
   \<and> SortedSearchPolicy_search 0 sortedColorEntries \<noteq> Some (Inr default_unknown_enum)"
proof -
  have a: "sorted (map enum_value sortedColorEntries)"
    and b: "length sortedColorEntries = 3"
    and c: "0 \<notin> enum_value ` set sortedColorEntries"
    by (simp_all add: sortedColorEntries_def)
  have s1: "SortedSearchPolicy_loop 0 sortedColorEntries 0 2
      = SortedSearchPolicy_loop 0 sortedColorEntries 0 0"
    by (subst SortedSearchPolicy_loop.simps) (simp add: Let_def sortedColorEntries_def)
  have s2: "SortedSearchPolicy_loop 0 sortedColorEntries 0 0
      = SortedSearchPolicy_loop 0 sortedColorEntries 0 (- 1)"
    by (subst SortedSearchPolicy_loop.simps) (simp add: Let_def sortedColorEntries_def)
  have s3: "SortedSearchPolicy_loop 0 sortedColorEntries 0 (- 1)
      = Some (Inl (OutOfBounds 9223372036854775807))"
    by (subst SortedSearchPolicy_loop.simps) (simp add: Let_def sortedColorEntries_def)
  have d: "SortedSearchPolicy_search 0 sortedColorEntries
       = Some (Inl (OutOfBounds 9223372036854775807))"
    using s1 s2 s3 by (simp add: SortedSearchPolicy_search_def b)
  from a b c d show ?thesis by simp
qed

text \<open>
  C2. \<open>fromValue\<close> is to be total under every policy whose precondition holds: every
  index read lies within the array and some entry is returned. Under the sorted search,
  on the sorted table \<open>[(1,"Red"), (2,"Green"), (3,"Blue")]\<close>, \<open>fromValue(0)\<close> reads
  \<open>entries[2^63 - 1]\<close>, outside the array, and returns no entry.
\<close>

theorem C2_fromValue_sorted_out_of_bounds:
  "enumSearchPolicy SortedColorHolder = SortedSearchPolicy
   \<and> sorted (map enum_value (m_entries SortedColorHolder))
   \<and> fromValue SortedColorHolder 0 = Some (Inl (OutOfBounds 9223372036854775807))"
proof -
  have a: "enumSearchPolicy SortedColorHolder = SortedSearchPolicy"
    and b: "sorted (map enum_value (m_entries SortedColorHolder))"
    and n: "m_entries SortedColorHolder \<noteq> []"
    and f: "0 < enum_value (m_entries SortedColorHolder ! 0)"
    and l: "length (m_entries SortedColorHolder) \<le> 9223372036854775807"
    by (simp_all add: SortedColorHolder_def sortedColorEntries_def)
  from fromValue_sorted_below_first [OF a b n f l] a b show ?thesis by simp
qed




text \<open>
  C4. Under the default unknown policy, \<open>fromValue\<close> is to return the default entry
  for every query value that equals no entry's value. Under the sorted search, on the
  table \<open>[(5,"Five")]\<close>, \<open>fromValue(3)\<close> reads \<open>entries[2^63 - 1]\<close>, outside the array,
  and does not return the default entry. (Under the linear search, and for names under
  both name searches, the default entry is returned: \<open>fromValue_linear_unknown\<close>,
  \<open>fromString_case_sensitive_unknown\<close>, \<open>fromString_case_insensitive_unknown\<close>; under
  the sorted search it is returned for queries above the first value:
  \<open>fromValue_sorted_unknown\<close>.)
\<close>

theorem C4_fromValue_sorted_not_sentinel:
  "enumSearchPolicy singleEntryHolder = SortedSearchPolicy
   \<and> unknownPolicy singleEntryHolder = UnknownPolicy
   \<and> sorted (map enum_value (m_entries singleEntryHolder))
   \<and> 3 \<notin> enum_value ` set (m_entries singleEntryHolder)
   \<and> fromValue singleEntryHolder 3 = Some (Inl (OutOfBounds 9223372036854775807))
   \<and> fromValue singleEntryHolder 3 \<noteq> Some (Inr (default_unknown_enum, singleEntryHolder))"
proof -
  have a: "enumSearchPolicy singleEntryHolder = SortedSearchPolicy"
    and u: "unknownPolicy singleEntryHolder = UnknownPolicy"
    and b: "sorted (map enum_value (m_entries singleEntryHolder))"
    and c: "3 \<notin> enum_value ` set (m_entries singleEntryHolder)"
    by (simp_all add: singleEntryHolder_def)
  have s1: "SortedSearchPolicy_loop 3 (m_entries singleEntryHolder) 0 0
      = SortedSearchPolicy_loop 3 (m_entries singleEntryHolder) 0 (- 1)"
    by (subst SortedSearchPolicy_loop.simps) (simp add: Let_def singleEntryHolder_def)
  have s2: "SortedSearchPolicy_loop 3 (m_entries singleEntryHolder) 0 (- 1)
      = Some (Inl (OutOfBounds 9223372036854775807))"
    by (subst SortedSearchPolicy_loop.simps) (simp add: Let_def singleEntryHolder_def)
  have "length (m_entries singleEntryHolder) = 1" by (simp add: singleEntryHolder_def)
  then have "EnumSearchPolicy_search (enumSearchPolicy singleEntryHolder) 3
      (m_entries singleEntryHolder) = Some (Inl (OutOfBounds 9223372036854775807))"
    using s1 s2 a by (simp add: SortedSearchPolicy_search_def)
  then have d: "fromValue singleEntryHolder 3 = Some (Inl (OutOfBounds 9223372036854775807))"
    by (rule fromValue_of_error)
  from a u b c d show ?thesis by simp
qed

text \<open>
  C5. For the table \<open>[(1,"Red"), (2,"Green"), (3,"Blue"), (0,"Unknown")]\<close> bound to the
  linear value search, the case-sensitive name search and the default unknown policy:
  \<open>fromValue(2)\<close> returns \<open>(2,"Green")\<close>, \<open>fromValue(9)\<close> returns the sentinel \<open>(0,"")\<close>,
  \<open>fromString("Blue")\<close> returns \<open>(3,"Blue")\<close>, \<open>fromString("blue")\<close> returns the sentinel
  \<open>(0,"")\<close>, and \<open>allValues()\<close> has length 4; in every locale \<open>lc\<close> of the process.
\<close>

theorem C5_concrete_scenario:
  "fromValue ColorEnumHolder 2
     = Some (Inr (\<lparr>enum_value = 2, enum_name = ''Green''\<rparr>, ColorEnumHolder))
   \<and> fromValue ColorEnumHolder 9
     = Some (Inr (\<lparr>enum_value = 0, enum_name = ''''\<rparr>, ColorEnumHolder))
   \<and> fromString lc ColorEnumHolder ''Blue''
     = (\<lparr>enum_value = 3, enum_name = ''Blue''\<rparr>, ColorEnumHolder)
   \<and> fromString lc ColorEnumHolder ''blue''
     = (\<lparr>enum_value = 0, enum_name = ''''\<rparr>, ColorEnumHolder)
   \<and> length (fst (allValues ColorEnumHolder)) = 4"
proof -
  have e: "EnumSearchPolicy_search (enumSearchPolicy ColorEnumHolder) 2 (m_entries ColorEnumHolder)
      = Some (Inr \<lparr>enum_value = 2, enum_name = ''Green''\<rparr>)"
    by (simp add: ColorEnumHolder_def colorEntries_def LinearSearchPolicy_search_def)
  have u: "EnumSearchPolicy_search (enumSearchPolicy ColorEnumHolder) 9 (m_entries ColorEnumHolder)
      = Some (Inr \<lparr>enum_value = 0, enum_name = ''''\<rparr>)"
    by (simp add: ColorEnumHolder_def colorEntries_def LinearSearchPolicy_search_def
        default_unknown_enum_def)
  have b: "StringSearchPolicy_search lc (stringSearchPolicy ColorEnumHolder) ''Blue''
      (m_entries ColorEnumHolder) = \<lparr>enum_value = 3, enum_name = ''Blue''\<rparr>"
    by (simp add: ColorEnumHolder_def colorEntries_def CaseSensitiveStringSearchPolicy_search_def)
  have l: "StringSearchPolicy_search lc (stringSearchPolicy ColorEnumHolder) ''blue''
      (m_entries ColorEnumHolder) = \<lparr>enum_value = 0, enum_name = ''''\<rparr>"
    by (simp add: ColorEnumHolder_def colorEntries_def CaseSensitiveStringSearchPolicy_search_def
        default_unknown_enum_def)
  have n: "length (fst (allValues ColorEnumHolder)) = 4"
    by (simp add: allValues_def ColorEnumHolder_def colorEntries_def)
  show ?thesis
    using fromValue_of_search [OF e] fromValue_of_search [OF u] b l n
    by (simp only: fromString_of_search simp_thms)
qed

text \<open>
  C6, amended. In a locale whose \<open>std::tolower\<close> is that of the \<open>"C"\<close> locale on every
  character code (the \<open>"C"\<close> locale a process starts in, for one): under the
  case-insensitive name search, a query name matches the name of an entry if and only
  if the two have equal length and every pair of characters at the same position is
  equal under the ASCII case fold; the search, and \<open>fromString\<close>, return the first
  matching entry in array order (the default entry when there is none); and resolving
  \<open>"red"\<close>, \<open>"RED"\<close> and \<open>"ReD"\<close> gives the same entry as resolving \<open>"Red"\<close>.
\<close>

theorem C6_case_insensitive_search:
  assumes "\<forall>c::char. tolower lc (of_char c) = tolower C_locale (of_char c)"
  shows "((length n = length m \<and> std_equal m n (caseInsensitiveEqual lc))
            \<longleftrightarrow> spec_names_match n m)
   \<and> CaseInsensitiveStringSearchPolicy_search lc n es =
       (case find (\<lambda>e. spec_names_match n (enum_name e)) es of
          Some e \<Rightarrow> e | None \<Rightarrow> default_unknown_enum)
   \<and> (stringSearchPolicy h = CaseInsensitiveStringSearchPolicy \<longrightarrow>
        fromString lc h n =
          (case find (\<lambda>e. spec_names_match n (enum_name e)) (m_entries h) of
             Some e \<Rightarrow> e | None \<Rightarrow> default_unknown_enum, h)
        \<and> fromString lc h ''red'' = fromString lc h ''Red''
        \<and> fromString lc h ''RED'' = fromString lc h ''Red''
        \<and> fromString lc h ''ReD'' = fromString lc h ''Red'')"
proof (intro conjI impI)
  have eq: "caseInsensitiveEqual lc = caseInsensitiveEqual C_locale"
    using assms by (rule caseInsensitiveEqual_locale_cong)
  note loop = CaseInsensitiveStringSearchPolicy_loop_locale_cong [OF assms]
  have fs: "fromString lc h q = fromString C_locale h q" for q
    using assms by (rule fromString_locale_cong)
  show "(length n = length m \<and> std_equal m n (caseInsensitiveEqual lc))
      \<longleftrightarrow> spec_names_match n m"
    unfolding eq by (rule caseInsensitive_condition)
  show "CaseInsensitiveStringSearchPolicy_search lc n es =
       (case find (\<lambda>e. spec_names_match n (enum_name e)) es of
          Some e \<Rightarrow> e | None \<Rightarrow> default_unknown_enum)"
    by (simp add: CaseInsensitiveStringSearchPolicy_search_def loop
        CaseInsensitiveStringSearchPolicy_loop_find)
  assume p: "stringSearchPolicy h = CaseInsensitiveStringSearchPolicy"
  show "fromString lc h n =
          (case find (\<lambda>e. spec_names_match n (enum_name e)) (m_entries h) of
             Some e \<Rightarrow> e | None \<Rightarrow> default_unknown_enum, h)"
    unfolding fs using p
    by (simp add: fromString_of_search CaseInsensitiveStringSearchPolicy_search_def
        CaseInsensitiveStringSearchPolicy_loop_find)
  show "fromString lc h ''red'' = fromString lc h ''Red''"
    unfolding fs using p CaseInsensitiveStringSearchPolicy_search_cong [OF fold_red(1)]
    by (simp add: fromString_of_search)
  show "fromString lc h ''RED'' = fromString lc h ''Red''"
    unfolding fs using p CaseInsensitiveStringSearchPolicy_search_cong [OF fold_red(2)]
    by (simp add: fromString_of_search)
  show "fromString lc h ''ReD'' = fromString lc h ''Red''"
    unfolding fs using p CaseInsensitiveStringSearchPolicy_search_cong [OF fold_red(3)]
    by (simp add: fromString_of_search)
qed

theorem C6_case_insensitive_search_witness:
  "stringSearchPolicy InsensitiveHolder = CaseInsensitiveStringSearchPolicy
   \<and> spec_names_match ''rEd'' ''Red''
   \<and> std_equal ''Red'' ''rEd'' (caseInsensitiveEqual C_locale)
   \<and> fromString C_locale InsensitiveHolder ''Red''
       = (\<lparr>enum_value = 1, enum_name = ''Red''\<rparr>, InsensitiveHolder)
   \<and> fromString C_locale InsensitiveHolder ''red'' = fromString C_locale InsensitiveHolder ''Red''
   \<and> fromString C_locale InsensitiveHolder ''RED'' = fromString C_locale InsensitiveHolder ''Red''
   \<and> fromString C_locale InsensitiveHolder ''ReD'' = fromString C_locale InsensitiveHolder ''Red''"
proof -
  have a: "\<forall>c::char. tolower C_locale (of_char c) = tolower C_locale (of_char c)"
    by simp
  have p: "stringSearchPolicy InsensitiveHolder = CaseInsensitiveStringSearchPolicy"
    by (simp add: InsensitiveHolder_def)
  have m: "spec_names_match ''rEd'' ''Red''"
    by (simp add: spec_names_match_def ascii_case_fold_def)
  have r: "fromString C_locale InsensitiveHolder ''Red''
       = (\<lparr>enum_value = 1, enum_name = ''Red''\<rparr>, InsensitiveHolder)"
    by (simp add: fromString_of_search InsensitiveHolder_def colorEntries_def
        CaseInsensitiveStringSearchPolicy_search_def caseInsensitiveEqual_def tolower_def
        C_locale_def)
  note w = C6_case_insensitive_search [OF a, of "''rEd''" "''Red''" "[]" InsensitiveHolder]
  have s: "std_equal ''Red'' ''rEd'' (caseInsensitiveEqual C_locale)" using w m by blast
  from w p m s r show ?thesis by blast
qed

text \<open>
  C6 as stated, for every locale, fails: the comparison is made with \<open>std::tolower\<close>,
  which follows the locale of the process. In an ISO-8859-1 locale the query \<open>0xC9\<close>
  matches the entry name \<open>0xE9\<close>, and \<open>fromString\<close> returns that entry, although the
  two names are not equal under the ASCII case fold.
\<close>

theorem C6_locale_counterexample:
  "stringSearchPolicy accentHolder = CaseInsensitiveStringSearchPolicy
   \<and> m_entries accentHolder = [\<lparr>enum_value = 1, enum_name = [CHR 0xE9]\<rparr>]
   \<and> length [CHR 0xC9] = length [CHR 0xE9]
   \<and> std_equal [CHR 0xE9] [CHR 0xC9] (caseInsensitiveEqual Latin1_locale)
   \<and> \<not> spec_names_match [CHR 0xC9] [CHR 0xE9]
   \<and> fromString Latin1_locale accentHolder [CHR 0xC9]
       = (\<lparr>enum_value = 1, enum_name = [CHR 0xE9]\<rparr>, accentHolder)"
proof -
  have a: "stringSearchPolicy accentHolder = CaseInsensitiveStringSearchPolicy"
    and b: "m_entries accentHolder = [\<lparr>enum_value = 1, enum_name = [CHR 0xE9]\<rparr>]"
    by (simp_all add: accentHolder_def)
  have c: "std_equal [CHR 0xE9] [CHR 0xC9] (caseInsensitiveEqual Latin1_locale)"
    by (simp add: caseInsensitiveEqual_def tolower_def Latin1_locale_def)
  have d: "\<not> spec_names_match [CHR 0xC9] [CHR 0xE9]"
    by (simp add: spec_names_match_def ascii_case_fold_def)
  have e: "fromString Latin1_locale accentHolder [CHR 0xC9]
       = (\<lparr>enum_value = 1, enum_name = [CHR 0xE9]\<rparr>, accentHolder)"
    by (simp add: fromString_of_search accentHolder_def
        CaseInsensitiveStringSearchPolicy_search_def caseInsensitiveEqual_def tolower_def
        Latin1_locale_def)
  from a b c d e show ?thesis by simp
qed

text \<open>
  C7. Under the linear value search, for an array with two entries of the same value
  but different names, \<open>fromValue\<close> on that value returns the entry that occurs
  earliest in array order: the one at index \<open>i\<close>, before which no entry has the value.
\<close>

theorem C7_linear_first_match:
  assumes "enumSearchPolicy h = LinearSearchPolicy"
    and "i < j" and "j < length (m_entries h)"
    and "enum_value (m_entries h ! i) = v" and "enum_value (m_entries h ! j) = v"
    and "enum_name (m_entries h ! i) \<noteq> enum_name (m_entries h ! j)"
    and "\<forall>k<i. enum_value (m_entries h ! k) \<noteq> v"
  shows "fromValue h v = Some (Inr (m_entries h ! i, h))"
proof -
  have "i < length (m_entries h)" using assms(2,3) by simp
  then have "LinearSearchPolicy_search v (m_entries h) = m_entries h ! i"
    using assms(4,7) by (rule LinearSearchPolicy_search_first)
  then have "EnumSearchPolicy_search (enumSearchPolicy h) v (m_entries h)
      = Some (Inr (m_entries h ! i))"
    using assms(1) by simp
  then show ?thesis by (rule fromValue_of_search)
qed

theorem C7_linear_first_match_witness:
  "enumSearchPolicy duplicateValueHolder = LinearSearchPolicy
   \<and> enum_value (m_entries duplicateValueHolder ! 1) = 2
   \<and> enum_value (m_entries duplicateValueHolder ! 2) = 2
   \<and> enum_name (m_entries duplicateValueHolder ! 1) \<noteq> enum_name (m_entries duplicateValueHolder ! 2)
   \<and> fromValue duplicateValueHolder 2
     = Some (Inr (\<lparr>enum_value = 2, enum_name = ''Green''\<rparr>, duplicateValueHolder))"
proof -
  have p: "enumSearchPolicy duplicateValueHolder = LinearSearchPolicy"
    by (simp add: duplicateValueHolder_def)
  have l: "(2::nat) < length (m_entries duplicateValueHolder)"
    by (simp add: duplicateValueHolder_def)
  have v1: "enum_value (m_entries duplicateValueHolder ! 1) = 2"
    and v2: "enum_value (m_entries duplicateValueHolder ! 2) = 2"
    and n: "enum_name (m_entries duplicateValueHolder ! 1)
        \<noteq> enum_name (m_entries duplicateValueHolder ! 2)"
    and e: "m_entries duplicateValueHolder ! 1 = \<lparr>enum_value = 2, enum_name = ''Green''\<rparr>"
    by (simp_all add: duplicateValueHolder_def)
  have f: "\<forall>k<1. enum_value (m_entries duplicateValueHolder ! k) \<noteq> 2"
    by (simp add: duplicateValueHolder_def)
  have "(1::nat) < 2" by simp
  from C7_linear_first_match [OF p this l v1 v2 n f] p v1 v2 n e show ?thesis by simp
qed

text \<open>
  C8. \<open>allValues()\<close> returns a sequence whose length is the size \<open>N\<close> of the backing
  array and whose \<open>i\<close>-th element is the \<open>i\<close>-th element of the backing array, for every
  index \<open>i\<close>; the call leaves the holder, and with it the backing array, unchanged.
\<close>

theorem C8_allValues:
  "length (fst (allValues h)) = length (m_entries h)
   \<and> (\<forall>i < length (m_entries h). fst (allValues h) ! i = m_entries h ! i)
   \<and> snd (allValues h) = h"
proof (intro conjI allI impI)
  show "length (fst (allValues h)) = length (m_entries h)"
    by (simp add: allValues_def)
  show "fst (allValues h) ! i = m_entries h ! i" for i
    by (simp add: allValues_def)
  show "snd (allValues h) = h"
    by (simp add: allValues_def)
qed

theorem C8_allValues_witness:
  "length (fst (allValues ColorEnumHolder)) = 4
   \<and> fst (allValues ColorEnumHolder) ! 3 = \<lparr>enum_value = 0, enum_name = ''Unknown''\<rparr>
   \<and> m_entries (snd (allValues ColorEnumHolder)) = colorEntries"
proof -
  have n: "length (m_entries ColorEnumHolder) = 4"
    and e: "m_entries ColorEnumHolder ! 3 = \<lparr>enum_value = 0, enum_name = ''Unknown''\<rparr>"
    and m: "m_entries ColorEnumHolder = colorEntries"
    by (simp_all add: ColorEnumHolder_def colorEntries_def)
  from C8_allValues [of ColorEnumHolder] n e m show ?thesis by simp
qed





end
